theory Spec2Isabelle
  imports Complex_Main
begin

section \<open>Export of a reconstruction to Bundler files (theia/io/write\_bundler\_files.cc)\<close>

text \<open>
  The file under verification holds four functions: \<open>CreateEstimatedSubreconstruction\<close>,
  \<open>WriteListsFile\<close>, \<open>WriteBundleFile\<close> and the entry point \<open>WriteBundlerFiles\<close>.
  They are embedded below one by one, each loop as a recursive function over the
  vector it walks, each stream insertion \<open>ofs << x\<close> as one token appended to the
  stream, each null dereference and each failed \<open>FindOrDie\<close> as an error value.

  A C++ \<open>double\<close> is idealised as a \<open>real\<close>: rounding, infinities and NaN are outside
  the model. Indices are unbounded (\<open>int i\<close> never overflows, so the vectors are
  shorter than \<open>2 ^ 31\<close>).
\<close>

subsection \<open>The entity model\<close>

type_synonym ViewId = nat
type_synonym TrackId = nat

type_synonym Vector2d = "real \<times> real"
type_synonym Vector3d = "real \<times> real \<times> real"
type_synonym Vector4d = "real \<times> real \<times> real \<times> real"

text \<open>A 3 by 3 matrix is the triple of its rows.\<close>

type_synonym Matrix3d = "Vector3d \<times> Vector3d \<times> Vector3d"

text \<open>
  Modelled from the spec: the classes \<open>Camera\<close>, \<open>CameraIntrinsicsPrior\<close>, \<open>View\<close>,
  \<open>Track\<close> and \<open>Reconstruction\<close> are declared in headers that are not among the sources
  (theia/sfm/camera/camera.h, camera\_intrinsics\_prior.h, view.h, track.h,
  reconstruction.h). Section 3 of the spec gives their shape; every accessor the
  writers call is a field, or a function, of the same name.
\<close>

record camera =
  FocalLength :: real
  RadialDistortion1 :: real
  RadialDistortion2 :: real
  PrincipalPointX :: real
  PrincipalPointY :: real
  GetOrientationAsRotationMatrix :: Matrix3d
  GetPosition :: Vector3d

text \<open>The prior's member \<open>focal_length\<close> has the two members \<open>is_set\<close> and \<open>value\<close>.\<close>

record camera_intrinsics_prior =
  focal_length_is_set :: bool
  focal_length_value :: real

text \<open>
  A view owns its features in a table keyed by the track they observe;
  \<open>GetFeature\<close> is the lookup, and returns a null pointer (\<open>None\<close>) on a track the
  view does not observe.
\<close>

record view =
  Name :: string
  IsEstimated :: bool
  Camera :: camera
  CameraIntrinsicsPrior :: camera_intrinsics_prior
  features :: "(TrackId \<times> Vector2d) list"

definition GetFeature :: "view \<Rightarrow> TrackId \<Rightarrow> Vector2d option" where
  "GetFeature v track_id = map_of (features v) track_id"

text \<open>
  A track holds a homogeneous point, its flag and the ids of the views that observe
  it, here in the order the writer's range-for walks them.
\<close>

record track =
  Point :: Vector4d
  Track_IsEstimated :: bool
  Track_ViewIds :: "ViewId list"

definition Track_NumViews :: "track \<Rightarrow> nat" where
  "Track_NumViews t = length (Track_ViewIds t)"

text \<open>
  A reconstruction owns a mapping from ViewId to view and one from TrackId to
  track, whose iteration order is significant: two association lists. \<open>ViewIds\<close>
  and \<open>TrackIds\<close> return the keys as a fresh vector, \<open>View\<close> and \<open>Track\<close> return a
  pointer that is null on an id the reconstruction does not hold.
\<close>

record reconstruction =
  views :: "(ViewId \<times> view) list"
  tracks :: "(TrackId \<times> track) list"

definition ViewIds :: "reconstruction \<Rightarrow> ViewId list" where
  "ViewIds r = map fst (views r)"

definition TrackIds :: "reconstruction \<Rightarrow> TrackId list" where
  "TrackIds r = map fst (tracks r)"

definition View :: "reconstruction \<Rightarrow> ViewId \<Rightarrow> view option" where
  "View r view_id = map_of (views r) view_id"

definition Track :: "reconstruction \<Rightarrow> TrackId \<Rightarrow> track option" where
  "Track r track_id = map_of (tracks r) track_id"

definition NumViews :: "reconstruction \<Rightarrow> nat" where
  "NumViews r = length (views r)"

definition NumTracks :: "reconstruction \<Rightarrow> nat" where
  "NumTracks r = length (tracks r)"

text \<open>
  Modelled from the spec: \<open>Reconstruction::RemoveView\<close> and
  \<open>Reconstruction::RemoveTrack\<close> are defined in reconstruction.cc, which is not among
  the sources. By section 4.1 of the spec a removal deletes the entity from its
  mapping and mutates no other entity: removing a view leaves every track's
  observer set as it was.
\<close>

definition RemoveView :: "ViewId \<Rightarrow> reconstruction \<Rightarrow> reconstruction" where
  "RemoveView view_id r = r\<lparr>views := filter (\<lambda>p. fst p \<noteq> view_id) (views r)\<rparr>"

definition RemoveTrack :: "TrackId \<Rightarrow> reconstruction \<Rightarrow> reconstruction" where
  "RemoveTrack track_id r = r\<lparr>tracks := filter (\<lambda>p. fst p \<noteq> track_id) (tracks r)\<rparr>"

subsection \<open>CreateEstimatedSubreconstruction (lines 56 to 84)\<close>

text \<open>
  The first loop (lines 61 to 70) walks the vector of view ids taken before the
  loop, and removes from the copy every view that is not estimated.
\<close>

fun remove_unestimated_views :: "ViewId list \<Rightarrow> reconstruction \<Rightarrow> reconstruction" where
  "remove_unestimated_views [] sub = sub"
| "remove_unestimated_views (view_id # view_ids) sub =
     (case View sub view_id of
        None \<Rightarrow> remove_unestimated_views view_ids sub
      | Some v \<Rightarrow>
          if \<not> IsEstimated v
          then remove_unestimated_views view_ids (RemoveView view_id sub)
          else remove_unestimated_views view_ids sub)"

text \<open>
  The second loop (lines 72 to 82) walks the track ids of the copy, taken after
  the views were removed.
\<close>

fun remove_bad_tracks :: "TrackId list \<Rightarrow> reconstruction \<Rightarrow> reconstruction" where
  "remove_bad_tracks [] sub = sub"
| "remove_bad_tracks (track_id # track_ids) sub =
     (case Track sub track_id of
        None \<Rightarrow> remove_bad_tracks track_ids sub
      | Some t \<Rightarrow>
          if \<not> Track_IsEstimated t \<or> Track_NumViews t < 2
          then remove_bad_tracks track_ids (RemoveTrack track_id sub)
          else remove_bad_tracks track_ids sub)"

definition CreateEstimatedSubreconstruction :: "reconstruction \<Rightarrow> reconstruction" where
  "CreateEstimatedSubreconstruction input_reconstruction =
     (let subreconstruction = input_reconstruction;
          subreconstruction =
            remove_unestimated_views (ViewIds subreconstruction) subreconstruction;
          subreconstruction =
            remove_bad_tracks (TrackIds subreconstruction) subreconstruction
      in subreconstruction)"

subsection \<open>Streams, files and failures\<close>

text \<open>
  What a \<open>std::ofstream\<close> receives is kept as the list of the values inserted, one
  token for each \<open>operator<<\<close> call by the type of its argument: a string, an
  \<open>int\<close>, a \<open>size_t\<close>, a \<open>double\<close> at the stream's default precision, a coefficient
  printed by an Eigen format at full precision, and \<open>std::endl\<close>.
\<close>

datatype token =
  TStr string
| TInt int
| TSize nat
| TDouble real
| TFull real
| TEndl

text \<open>
  The file system answers whether a path can be opened for writing, and holds what
  was written to each path. Opening a file truncates it.
\<close>

record filesystem =
  writable :: "string \<Rightarrow> bool"
  files :: "string \<rightharpoonup> token list"

text \<open>
  The two ways the writers stop without returning: the \<open>CHECK\<close> of \<open>FindOrDie\<close> on
  a key the map does not hold, and a member access through a null pointer. Both
  end the process, so the result carries no file system.
\<close>

datatype error = KeyNotFound | NullPointer

text \<open>
  Modelled from the spec: \<open>FindOrDie\<close> is defined in theia/util/map\_util.h, which is
  not among the sources, and the spec does not describe it. The model takes the
  helper at its name and at its call site, which uses the result unconditionally:
  it returns the value stored under the key, and on a key the map does not hold it
  does not return (section 5 of the spec: an export runs to completion or fails
  synchronously).
\<close>

definition FindOrDie :: "('k \<rightharpoonup> 'v) \<Rightarrow> 'k \<Rightarrow> error + 'v" where
  "FindOrDie collection key =
     (case collection key of None \<Rightarrow> Inl KeyNotFound | Some v \<Rightarrow> Inr v)"

subsection \<open>The Eigen operations the writers use\<close>

fun dot3 :: "Vector3d \<Rightarrow> Vector3d \<Rightarrow> real" where
  "dot3 (a, b, c) (x, y, z) = a * x + b * y + c * z"

fun asDiagonal :: "Vector3d \<Rightarrow> Matrix3d" where
  "asDiagonal (a, b, c) = ((a, 0, 0), (0, b, 0), (0, 0, c))"

fun mat_vec :: "Matrix3d \<Rightarrow> Vector3d \<Rightarrow> Vector3d" where
  "mat_vec (r0, r1, r2) v = (dot3 r0 v, dot3 r1 v, dot3 r2 v)"

fun mat_transpose :: "Matrix3d \<Rightarrow> Matrix3d" where
  "mat_transpose ((a, b, c), (d, e, f), (g, h, i)) = ((a, d, g), (b, e, h), (c, f, i))"

fun mat_mul :: "Matrix3d \<Rightarrow> Matrix3d \<Rightarrow> Matrix3d" where
  "mat_mul (r0, r1, r2) m =
     (let t = mat_transpose m in (mat_vec t r0, mat_vec t r1, mat_vec t r2))"

fun vec_uminus :: "Vector3d \<Rightarrow> Vector3d" where
  "vec_uminus (x, y, z) = (- x, - y, - z)"

fun mat_uminus :: "Matrix3d \<Rightarrow> Matrix3d" where
  "mat_uminus (r0, r1, r2) = (vec_uminus r0, vec_uminus r1, vec_uminus r2)"

text \<open>
  \<open>hnormalized\<close> divides by the last coefficient. On a last coefficient 0 the
  division of doubles gives an infinity or NaN and that of HOL gives 0; no
  statement below depends on the quotient.
\<close>

fun hnormalized :: "Vector4d \<Rightarrow> Vector3d" where
  "hnormalized (x, y, z, w) = (x / w, y / w, z / w)"

text \<open>
  \<open>format(unaligned)\<close> with \<open>IOFormat(FullPrecision, DontAlignCols)\<close>: the
  coefficients of a row separated by one space, the rows by a newline.
\<close>

fun format_row2 :: "Vector2d \<Rightarrow> token list" where
  "format_row2 (x, y) = [TFull x, TStr '' '', TFull y]"

fun format_row3 :: "Vector3d \<Rightarrow> token list" where
  "format_row3 (x, y, z) = [TFull x, TStr '' '', TFull y, TStr '' '', TFull z]"

fun format_Matrix3d :: "Matrix3d \<Rightarrow> token list" where
  "format_Matrix3d (r0, r1, r2) =
     format_row3 r0 @ [TStr ''\<newline>''] @ format_row3 r1 @ [TStr ''\<newline>''] @ format_row3 r2"

subsection \<open>WriteListsFile (lines 87 to 107)\<close>

text \<open>The loop of lines 96 to 104; \<open>view->Name()\<close> dereferences without a test.\<close>

fun write_lists :: "reconstruction \<Rightarrow> ViewId list \<Rightarrow> token list \<Rightarrow> error + token list" where
  "write_lists r [] ofs = Inr ofs"
| "write_lists r (view_id # view_ids) ofs =
     (case View r view_id of
        None \<Rightarrow> Inl NullPointer
      | Some v \<Rightarrow>
          (let ofs = ofs @ [TStr (Name v)];
               prior = CameraIntrinsicsPrior v;
               ofs = (if focal_length_is_set prior
                      then ofs @ [TStr '' 0 '', TDouble (focal_length_value prior)]
                      else ofs);
               ofs = ofs @ [TEndl]
           in write_lists r view_ids ofs))"

text \<open>The message logged when the file cannot be opened is not part of the model.\<close>

definition WriteListsFile ::
  "reconstruction \<Rightarrow> string \<Rightarrow> filesystem \<Rightarrow> error + (bool \<times> filesystem)" where
  "WriteListsFile r lists_file fs =
     (if \<not> writable fs lists_file then Inr (False, fs)
      else
        (case write_lists r (ViewIds r) [] of
           Inl e \<Rightarrow> Inl e
         | Inr ofs \<Rightarrow> Inr (True, fs\<lparr>files := (files fs)(lists_file \<mapsto> ofs)\<rparr>)))"

subsection \<open>WriteBundleFile (lines 109 to 173)\<close>

definition theia_to_bundler :: Matrix3d where
  "theia_to_bundler = asDiagonal (1, - 1, - 1)"

text \<open>What lines 131 to 141 write for one camera.\<close>

definition write_camera :: "camera \<Rightarrow> token list" where
  "write_camera c =
     (let line1 = [TDouble (FocalLength c), TStr '' '', TDouble (RadialDistortion1 c),
                   TStr '' '', TDouble (RadialDistortion2 c), TEndl];
          rotation = mat_mul theia_to_bundler (GetOrientationAsRotationMatrix c);
          translation =
            mat_vec theia_to_bundler
              (mat_vec (mat_uminus (GetOrientationAsRotationMatrix c)) (GetPosition c))
      in line1 @ format_Matrix3d rotation @ [TEndl] @ format_row3 translation @ [TEndl])"

text \<open>
  The loop of lines 128 to 142, from index \<open>i\<close> on: it fills the index table and
  writes the cameras in one pass.
\<close>

fun write_cameras ::
  "reconstruction \<Rightarrow> nat \<Rightarrow> ViewId list \<Rightarrow> token list \<times> (ViewId \<rightharpoonup> int) \<Rightarrow>
   error + (token list \<times> (ViewId \<rightharpoonup> int))" where
  "write_cameras r i [] st = Inr st"
| "write_cameras r i (view_id # view_ids) (ofs, view_id_to_index) =
     (let view_id_to_index = view_id_to_index(view_id \<mapsto> int i) in
      case View r view_id of
        None \<Rightarrow> Inl NullPointer
      | Some v \<Rightarrow>
          write_cameras r (Suc i) view_ids (ofs @ write_camera (Camera v), view_id_to_index))"

text \<open>Lines 161 to 163.\<close>

definition adjusted_feature :: "Vector2d \<Rightarrow> camera \<Rightarrow> Vector2d" where
  "adjusted_feature feature c =
     (fst feature - PrincipalPointX c, - (snd feature - PrincipalPointY c))"

text \<open>The loop of lines 155 to 169 over the observers of one track.\<close>

fun write_observations ::
  "reconstruction \<Rightarrow> (ViewId \<rightharpoonup> int) \<Rightarrow> TrackId \<Rightarrow> ViewId list \<Rightarrow> token list \<Rightarrow>
   error + token list" where
  "write_observations r view_id_to_index track_id [] ofs = Inr ofs"
| "write_observations r view_id_to_index track_id (view_id # views_in_track) ofs =
     (case FindOrDie view_id_to_index view_id of
        Inl e \<Rightarrow> Inl e
      | Inr index \<Rightarrow>
          (case View r view_id of
             None \<Rightarrow> Inl NullPointer
           | Some v \<Rightarrow>
               (case GetFeature v track_id of
                  None \<Rightarrow> Inl NullPointer
                | Some feature \<Rightarrow>
                    write_observations r view_id_to_index track_id views_in_track
                      (ofs @ [TStr '' '', TInt index, TStr '' 0 '']
                           @ format_row2 (adjusted_feature feature (Camera v))))))"

text \<open>The loop of lines 146 to 171 over the tracks.\<close>

fun write_points ::
  "reconstruction \<Rightarrow> (ViewId \<rightharpoonup> int) \<Rightarrow> TrackId list \<Rightarrow> token list \<Rightarrow> error + token list" where
  "write_points r view_id_to_index [] ofs = Inr ofs"
| "write_points r view_id_to_index (track_id # track_ids) ofs =
     (case Track r track_id of
        None \<Rightarrow> Inl NullPointer
      | Some t \<Rightarrow>
          (let position = hnormalized (Point t);
               ofs = ofs @ format_row3 position @ [TEndl];
               ofs = ofs @ [TStr ''255 255 255'', TEndl];
               views_in_track = Track_ViewIds t;
               ofs = ofs @ [TSize (length views_in_track)]
           in case write_observations r view_id_to_index track_id views_in_track ofs of
                Inl e \<Rightarrow> Inl e
              | Inr ofs \<Rightarrow> write_points r view_id_to_index track_ids (ofs @ [TEndl])))"

definition WriteBundleFile ::
  "reconstruction \<Rightarrow> string \<Rightarrow> filesystem \<Rightarrow> error + (bool \<times> filesystem)" where
  "WriteBundleFile r bundle_file fs =
     (if \<not> writable fs bundle_file then Inr (False, fs)
      else
        (let ofs = [TStr ''# Bundle file v0.3'', TEndl];
             ofs = ofs @ [TInt (int (NumViews r)), TStr '' '', TInt (int (NumTracks r)), TEndl]
         in case write_cameras r 0 (ViewIds r) (ofs, Map.empty) of
              Inl e \<Rightarrow> Inl e
            | Inr (ofs, view_id_to_index) \<Rightarrow>
                (case write_points r view_id_to_index (TrackIds r) ofs of
                   Inl e \<Rightarrow> Inl e
                 | Inr ofs \<Rightarrow> Inr (True, fs\<lparr>files := (files fs)(bundle_file \<mapsto> ofs)\<rparr>))))"

subsection \<open>WriteBundlerFiles (lines 177 to 188)\<close>

definition WriteBundlerFiles ::
  "reconstruction \<Rightarrow> string \<Rightarrow> string \<Rightarrow> filesystem \<Rightarrow> error + (bool \<times> filesystem)" where
  "WriteBundlerFiles r lists_file bundle_file fs =
     (let estimated_reconstruction = CreateEstimatedSubreconstruction r in
      case WriteListsFile estimated_reconstruction lists_file fs of
        Inl e \<Rightarrow> Inl e
      | Inr (ok, fs) \<Rightarrow>
          if \<not> ok then Inr (False, fs)
          else WriteBundleFile estimated_reconstruction bundle_file fs)"

subsection \<open>What the filter keeps\<close>

text \<open>The test of line 67 and the test of line 79, read on the input.\<close>

definition view_kept :: "reconstruction \<Rightarrow> ViewId \<Rightarrow> bool" where
  "view_kept r k = (case View r k of None \<Rightarrow> False | Some v \<Rightarrow> IsEstimated v)"

definition track_kept :: "reconstruction \<Rightarrow> TrackId \<Rightarrow> bool" where
  "track_kept r k = (case Track r k of None \<Rightarrow> False | Some t \<Rightarrow> Track_IsEstimated t \<and> 2 \<le> Track_NumViews t)"

subsection \<open>What the loops write, line by line\<close>

text \<open>
  The writers end every line with \<open>std::endl\<close>, so a file is described by the list
  of its lines, each without its \<open>TEndl\<close>.
\<close>

definition unlines :: "token list list \<Rightarrow> token list" where
  "unlines ls = concat (map (\<lambda>l. l @ [TEndl]) ls)"

text \<open>The line of the lists file for one view (lines 98 to 103).\<close>

definition list_line :: "view \<Rightarrow> token list" where
  "list_line v =
     TStr (Name v) #
     (if focal_length_is_set (CameraIntrinsicsPrior v)
      then [TStr '' 0 '', TDouble (focal_length_value (CameraIntrinsicsPrior v))] else [])"

definition lists_lines :: "reconstruction \<Rightarrow> token list list" where
  "lists_lines r =
     concat (map (\<lambda>view_id. case View r view_id of None \<Rightarrow> [] | Some v \<Rightarrow> [list_line v])
       (ViewIds r))"

text \<open>The table the camera loop has filled when it ends (line 129).\<close>

fun index_table :: "nat \<Rightarrow> ViewId list \<Rightarrow> (ViewId \<rightharpoonup> int) \<Rightarrow> (ViewId \<rightharpoonup> int)" where
  "index_table i [] tbl = tbl"
| "index_table i (view_id # view_ids) tbl = index_table (Suc i) view_ids (tbl(view_id \<mapsto> int i))"

definition view_id_to_index :: "reconstruction \<Rightarrow> (ViewId \<rightharpoonup> int)" where
  "view_id_to_index r = index_table 0 (ViewIds r) Map.empty"

text \<open>The two header lines (lines 120 to 122) and the three lines of a camera.\<close>

definition header_lines :: "reconstruction \<Rightarrow> token list list" where
  "header_lines r =
     [[TStr ''# Bundle file v0.3''],
      [TInt (int (NumViews r)), TStr '' '', TInt (int (NumTracks r))]]"

definition camera_lines :: "camera \<Rightarrow> token list list" where
  "camera_lines c =
     [[TDouble (FocalLength c), TStr '' '', TDouble (RadialDistortion1 c),
       TStr '' '', TDouble (RadialDistortion2 c)],
      format_Matrix3d (mat_mul theia_to_bundler (GetOrientationAsRotationMatrix c)),
      format_row3 (mat_vec theia_to_bundler
         (mat_vec (mat_uminus (GetOrientationAsRotationMatrix c)) (GetPosition c)))]"

definition camera_section :: "reconstruction \<Rightarrow> token list list" where
  "camera_section r =
     concat (map (\<lambda>view_id. case View r view_id of None \<Rightarrow> [] | Some v \<Rightarrow> camera_lines (Camera v))
       (ViewIds r))"

text \<open>
  An observation is written when the table holds the observer, the reconstruction
  holds the view and the view holds a feature for the track; then the loop body
  appends one tuple (lines 167 and 168).
\<close>

definition observation_ok ::
  "reconstruction \<Rightarrow> (ViewId \<rightharpoonup> int) \<Rightarrow> TrackId \<Rightarrow> ViewId \<Rightarrow> bool" where
  "observation_ok r tbl track_id view_id =
     (case (tbl view_id, View r view_id) of
        (Some index, Some v) \<Rightarrow> GetFeature v track_id \<noteq> None
      | _ \<Rightarrow> False)"

definition observation_tuple ::
  "reconstruction \<Rightarrow> (ViewId \<rightharpoonup> int) \<Rightarrow> TrackId \<Rightarrow> ViewId \<Rightarrow> token list" where
  "observation_tuple r tbl track_id view_id =
     (case (tbl view_id, View r view_id) of
        (Some index, Some v) \<Rightarrow>
          (case GetFeature v track_id of
             Some feature \<Rightarrow>
               [TStr '' '', TInt index, TStr '' 0 '']
                 @ format_row2 (adjusted_feature feature (Camera v))
           | None \<Rightarrow> [])
      | _ \<Rightarrow> [])"

text \<open>The three lines of a point, and when all of them are written.\<close>

definition point_lines ::
  "reconstruction \<Rightarrow> (ViewId \<rightharpoonup> int) \<Rightarrow> TrackId \<Rightarrow> token list list" where
  "point_lines r tbl track_id =
     (case Track r track_id of
        None \<Rightarrow> []
      | Some t \<Rightarrow>
          [format_row3 (hnormalized (Point t)),
           [TStr ''255 255 255''],
           TSize (length (Track_ViewIds t))
             # concat (map (observation_tuple r tbl track_id) (Track_ViewIds t))])"

definition point_ok :: "reconstruction \<Rightarrow> (ViewId \<rightharpoonup> int) \<Rightarrow> TrackId \<Rightarrow> bool" where
  "point_ok r tbl track_id =
     (case Track r track_id of
        None \<Rightarrow> False
      | Some t \<Rightarrow> list_all (observation_ok r tbl track_id) (Track_ViewIds t))"

definition point_section :: "reconstruction \<Rightarrow> token list list" where
  "point_section r = concat (map (point_lines r (view_id_to_index r)) (TrackIds r))"

definition points_ok :: "reconstruction \<Rightarrow> bool" where
  "points_ok r = list_all (point_ok r (view_id_to_index r)) (TrackIds r)"

definition bundle_lines :: "reconstruction \<Rightarrow> token list list" where
  "bundle_lines r = header_lines r @ camera_section r @ point_section r"

subsection \<open>Example reconstructions\<close>

definition ex_camera_a :: camera where
  "ex_camera_a =
     \<lparr>FocalLength = 1200, RadialDistortion1 = 0, RadialDistortion2 = 0,
      PrincipalPointX = 320, PrincipalPointY = 240,
      GetOrientationAsRotationMatrix = ((0, - 1, 0), (1, 0, 0), (0, 0, 1)),
      GetPosition = (1, 2, 3)\<rparr>"

definition ex_camera_b :: camera where
  "ex_camera_b =
     \<lparr>FocalLength = 1000, RadialDistortion1 = 0, RadialDistortion2 = 0,
      PrincipalPointX = 300, PrincipalPointY = 200,
      GetOrientationAsRotationMatrix = ((1, 0, 0), (0, 1, 0), (0, 0, 1)),
      GetPosition = (0, 0, 0)\<rparr>"

definition ex_view_a :: view where
  "ex_view_a =
     \<lparr>Name = ''a.jpg'', IsEstimated = True, Camera = ex_camera_a,
      CameraIntrinsicsPrior = \<lparr>focal_length_is_set = True, focal_length_value = 1500\<rparr>,
      features = [(7, (400, 300)), (8, (10, 20))]\<rparr>"

definition ex_view_b :: view where
  "ex_view_b =
     \<lparr>Name = ''b.jpg'', IsEstimated = True, Camera = ex_camera_b,
      CameraIntrinsicsPrior = \<lparr>focal_length_is_set = False, focal_length_value = 0\<rparr>,
      features = [(7, (100, 50)), (9, (1, 2))]\<rparr>"

definition ex_view_c :: view where
  "ex_view_c =
     \<lparr>Name = ''c.jpg'', IsEstimated = False, Camera = ex_camera_b,
      CameraIntrinsicsPrior = \<lparr>focal_length_is_set = False, focal_length_value = 0\<rparr>,
      features = [(9, (5, 5))]\<rparr>"

definition ex_track_6 :: track where
  "ex_track_6 = \<lparr>Point = (1, 1, 1, 1), Track_IsEstimated = False, Track_ViewIds = [10, 20]\<rparr>"

definition ex_track_7 :: track where
  "ex_track_7 = \<lparr>Point = (2, 4, 6, 2), Track_IsEstimated = True, Track_ViewIds = [10, 20]\<rparr>"

definition ex_track_8 :: track where
  "ex_track_8 = \<lparr>Point = (0, 0, 1, 1), Track_IsEstimated = True, Track_ViewIds = [10]\<rparr>"

definition ex_track_9 :: track where
  "ex_track_9 = \<lparr>Point = (3, 0, 3, 1), Track_IsEstimated = True, Track_ViewIds = [20, 30]\<rparr>"

text \<open>Two estimated views and one track that both observe.\<close>

definition ex_scene :: reconstruction where
  "ex_scene = \<lparr>views = [(10, ex_view_a), (20, ex_view_b)], tracks = [(7, ex_track_7)]\<rparr>"

text \<open>
  An input with a view that is not estimated (30), a track that is not estimated (6),
  a track with one observer (8) and a track observed by the views 20 and 30.
\<close>

definition ex_input :: reconstruction where
  "ex_input =
     \<lparr>views = [(10, ex_view_a), (30, ex_view_c), (20, ex_view_b)],
      tracks = [(6, ex_track_6), (7, ex_track_7), (8, ex_track_8), (9, ex_track_9)]\<rparr>"

text \<open>A reconstruction whose track 9 lists the view 30, which it does not hold.\<close>

definition ex_dangling :: reconstruction where
  "ex_dangling = \<lparr>views = [(10, ex_view_a), (20, ex_view_b)], tracks = [(9, ex_track_9)]\<rparr>"

definition ex_empty :: reconstruction where
  "ex_empty = \<lparr>views = [], tracks = []\<rparr>"

text \<open>A file system where every path but one can be opened, and no file exists yet.\<close>

definition ex_fs :: filesystem where
  "ex_fs = \<lparr>writable = (\<lambda>path. path \<noteq> ''/nodir/list.txt''), files = Map.empty\<rparr>"

subsection \<open>Lookups after a removal\<close>

lemma map_of_filter_fst:
  "map_of (filter (\<lambda>p. Q (fst p)) xs) k = (if Q k then map_of xs k else None)"
  by (induction xs) auto

lemma views_RemoveView [simp]: "views (RemoveView k r) = filter (\<lambda>p. fst p \<noteq> k) (views r)"
  and tracks_RemoveView [simp]: "tracks (RemoveView k r) = tracks r"
  and views_RemoveTrack [simp]: "views (RemoveTrack k r) = views r"
  and tracks_RemoveTrack [simp]: "tracks (RemoveTrack k r) = filter (\<lambda>p. fst p \<noteq> k) (tracks r)"
  by (simp_all add: RemoveView_def RemoveTrack_def)

lemma map_of_filter_neq:
  "map_of (filter (\<lambda>p. fst p \<noteq> k) xs) k' = (if k' \<noteq> k then map_of xs k' else None)"
  by (induction xs) auto

lemma remove_unestimated_views_tracks: "tracks (remove_unestimated_views ks sub) = tracks sub"
  by (induction ks arbitrary: sub) (auto split: option.splits)

lemma remove_bad_tracks_views: "views (remove_bad_tracks ks sub) = views sub"
  by (induction ks arbitrary: sub) (auto split: option.splits)

lemma remove_unestimated_views_views:
  "views (remove_unestimated_views ks sub) =
     filter (\<lambda>p. fst p \<in> set ks \<longrightarrow> (\<exists>v. map_of (views sub) (fst p) = Some v \<and> IsEstimated v)) (views sub)"
proof (induction ks arbitrary: sub)
  case Nil
  then show ?case by simp
next
  case (Cons k ks)
  show ?case
  proof (cases "View sub k")
    case None
    then have "\<forall>p \<in> set (views sub). fst p \<noteq> k"
      by (auto simp: View_def map_of_eq_None_iff)
    with None Cons.IH [of sub] show ?thesis
      by (auto intro!: filter_cong)
  next
    case (Some v)
    show ?thesis
    proof (cases "IsEstimated v")
      case True
      with Some Cons.IH [of sub] show ?thesis
        by (auto simp: View_def intro!: filter_cong)
    next
      case False
      with Some Cons.IH [of "RemoveView k sub"] show ?thesis
        by (auto simp: View_def map_of_filter_neq intro!: filter_cong)
    qed
  qed
qed

lemma remove_bad_tracks_tracks:
  "tracks (remove_bad_tracks ks sub) =
     filter (\<lambda>p. fst p \<in> set ks \<longrightarrow>
        (\<exists>t. map_of (tracks sub) (fst p) = Some t \<and> Track_IsEstimated t \<and> 2 \<le> Track_NumViews t)) (tracks sub)"
proof (induction ks arbitrary: sub)
  case Nil
  then show ?case by simp
next
  case (Cons k ks)
  show ?case
  proof (cases "Track sub k")
    case None
    then have "\<forall>p \<in> set (tracks sub). fst p \<noteq> k"
      by (auto simp: Track_def map_of_eq_None_iff)
    with None Cons.IH [of sub] show ?thesis
      by (auto intro!: filter_cong)
  next
    case (Some t)
    show ?thesis
    proof (cases "Track_IsEstimated t \<and> 2 \<le> Track_NumViews t")
      case True
      with Some Cons.IH [of sub] show ?thesis
        by (auto simp: Track_def intro!: filter_cong)
    next
      case False
      with Some Cons.IH [of "RemoveTrack k sub"] show ?thesis
        by (auto simp: Track_def map_of_filter_neq not_le intro!: filter_cong)
    qed
  qed
qed

lemma views_Create:
  "views (CreateEstimatedSubreconstruction r) = filter (\<lambda>p. view_kept r (fst p)) (views r)"
proof -
  have "views (CreateEstimatedSubreconstruction r) = views (remove_unestimated_views (ViewIds r) r)"
    by (simp add: CreateEstimatedSubreconstruction_def Let_def remove_bad_tracks_views)
  also have "\<dots> = filter (\<lambda>p. view_kept r (fst p)) (views r)"
    unfolding remove_unestimated_views_views
    by (rule filter_cong) (auto simp: ViewIds_def view_kept_def View_def split: option.splits)
  finally show ?thesis .
qed

lemma tracks_Create:
  "tracks (CreateEstimatedSubreconstruction r) = filter (\<lambda>p. track_kept r (fst p)) (tracks r)"
proof -
  let ?sub = "remove_unestimated_views (ViewIds r) r"
  have "tracks (CreateEstimatedSubreconstruction r) = tracks (remove_bad_tracks (TrackIds ?sub) ?sub)"
    by (simp add: CreateEstimatedSubreconstruction_def Let_def)
  also have "\<dots> = filter (\<lambda>p. track_kept r (fst p)) (tracks ?sub)"
    unfolding remove_bad_tracks_tracks
    by (rule filter_cong)
      (auto simp: TrackIds_def track_kept_def Track_def remove_unestimated_views_tracks
        split: option.splits)
  finally show ?thesis by (simp add: remove_unestimated_views_tracks)
qed

lemma View_Create:
  "View (CreateEstimatedSubreconstruction r) k = (if view_kept r k then View r k else None)"
  by (simp add: View_def views_Create map_of_filter_fst)

lemma Track_Create:
  "Track (CreateEstimatedSubreconstruction r) k = (if track_kept r k then Track r k else None)"
  by (simp add: Track_def tracks_Create map_of_filter_fst)


subsection \<open>The loops in closed form\<close>

lemma unlines_append: "unlines (xs @ ys) = unlines xs @ unlines ys"
  by (simp add: unlines_def)

lemma unlines_Cons: "unlines (l # ls) = l @ TEndl # unlines ls"
  by (simp add: unlines_def)

lemma unlines_Nil: "unlines [] = []"
  by (simp add: unlines_def)

lemma View_ViewIds: "view_id \<in> set (ViewIds r) \<Longrightarrow> \<exists>v. View r view_id = Some v"
  by (cases "View r view_id") (auto simp: View_def ViewIds_def map_of_eq_None_iff)

lemma Track_TrackIds: "track_id \<in> set (TrackIds r) \<Longrightarrow> \<exists>t. Track r track_id = Some t"
  by (cases "Track r track_id") (auto simp: Track_def TrackIds_def map_of_eq_None_iff)

lemma write_lists_eq:
  "\<forall>k \<in> set ks. View r k \<noteq> None \<Longrightarrow>
   write_lists r ks ofs = Inr (ofs @ unlines (map (\<lambda>k. list_line (the (View r k))) ks))"
proof (induction ks arbitrary: ofs)
  case Nil
  then show ?case by (simp add: unlines_Nil)
next
  case (Cons k ks)
  then obtain v where v: "View r k = Some v" by auto
  from Cons.prems have "\<forall>k \<in> set ks. View r k \<noteq> None" by simp
  from Cons.IH [OF this] v show ?case
    by (simp add: Let_def unlines_Cons list_line_def)
qed

lemma write_camera_lines: "write_camera c = unlines (camera_lines c)"
  by (simp add: write_camera_def camera_lines_def unlines_def Let_def)

lemma write_cameras_eq:
  "\<forall>k \<in> set ks. View r k \<noteq> None \<Longrightarrow>
   write_cameras r i ks (ofs, tbl) =
     Inr (ofs @ unlines (concat (map (\<lambda>k. camera_lines (Camera (the (View r k)))) ks)),
          index_table i ks tbl)"
proof (induction ks arbitrary: i ofs tbl)
  case Nil
  then show ?case by (simp add: unlines_Nil)
next
  case (Cons k ks)
  then obtain v where v: "View r k = Some v" by auto
  from Cons.prems have "\<forall>k \<in> set ks. View r k \<noteq> None" by simp
  from Cons.IH [OF this] v show ?case
    by (simp add: Let_def unlines_append write_camera_lines)
qed

lemma write_observations_Inr:
  "list_all (observation_ok r tbl tid) ks \<Longrightarrow>
   write_observations r tbl tid ks ofs =
     Inr (ofs @ concat (map (observation_tuple r tbl tid) ks))"
proof (induction ks arbitrary: ofs)
  case Nil
  then show ?case by simp
next
  case (Cons k ks)
  then show ?case
    by (auto simp: observation_ok_def observation_tuple_def FindOrDie_def
        split: option.splits)
qed

lemma write_observations_Inl:
  "\<not> list_all (observation_ok r tbl tid) ks \<Longrightarrow>
   \<exists>e. write_observations r tbl tid ks ofs = Inl e"
proof (induction ks arbitrary: ofs)
  case Nil
  then show ?case by simp
next
  case (Cons k ks)
  then show ?case
    by (auto simp: observation_ok_def FindOrDie_def split: option.splits)
qed

lemma write_points_Inr:
  "list_all (point_ok r tbl) ks \<Longrightarrow>
   write_points r tbl ks ofs = Inr (ofs @ unlines (concat (map (point_lines r tbl) ks)))"
proof (induction ks arbitrary: ofs)
  case Nil
  then show ?case by (simp add: unlines_Nil)
next
  case (Cons k ks)
  then show ?case
    by (auto simp: point_ok_def point_lines_def Let_def unlines_append unlines_Cons
        unlines_Nil write_observations_Inr split: option.splits)
qed

lemma write_points_Inl:
  "\<not> list_all (point_ok r tbl) ks \<Longrightarrow> \<exists>e. write_points r tbl ks ofs = Inl e"
proof (induction ks arbitrary: ofs)
  case Nil
  then show ?case by simp
next
  case (Cons k ks)
  show ?case
  proof (cases "point_ok r tbl k")
    case True
    with Cons.prems have "\<not> list_all (point_ok r tbl) ks" by simp
    from Cons.IH [OF this] True show ?thesis
      by (auto simp: point_ok_def Let_def write_observations_Inr split: option.splits)
  next
    case False
    show ?thesis
    proof (cases "Track r k")
      case None
      then show ?thesis by simp
    next
      case (Some t)
      with False have "\<not> list_all (observation_ok r tbl k) (Track_ViewIds t)"
        by (simp add: point_ok_def)
      from write_observations_Inl [OF this] obtain e where
        "write_observations r tbl k (Track_ViewIds t)
           (ofs @ format_row3 (hnormalized (Point t)) @
            [TEndl, TStr ''255 255 255'', TEndl, TSize (length (Track_ViewIds t))]) = Inl e"
        by blast
      with Some show ?thesis
        by (simp add: Let_def)
    qed
  qed
qed


subsection \<open>The index table\<close>

lemma index_table_notin:
  "k \<notin> set ks \<Longrightarrow> index_table i ks tbl k = tbl k"
  by (induction ks arbitrary: i tbl) auto

lemma index_table_nth:
  "distinct ks \<Longrightarrow> n < length ks \<Longrightarrow> index_table i ks tbl (ks ! n) = Some (int (i + n))"
proof (induction ks arbitrary: i tbl n)
  case Nil
  then show ?case by simp
next
  case (Cons k ks)
  show ?case
  proof (cases n)
    case 0
    with Cons.prems show ?thesis by (simp add: index_table_notin)
  next
    case (Suc m)
    with Cons.prems have "distinct ks" "m < length ks" by simp_all
    then have "index_table (Suc i) ks (tbl(k \<mapsto> int i)) (ks ! m) = Some (int (Suc i + m))"
      by (rule Cons.IH)
    with Suc show ?thesis by simp
  qed
qed

lemma dom_index_table: "dom (index_table i ks tbl) = dom tbl \<union> set ks"
  by (induction ks arbitrary: i tbl) auto

lemma index_table_bij:
  assumes "distinct ks"
  shows "bij_betw (\<lambda>k. the (index_table 0 ks Map.empty k)) (set ks) {0..<int (length ks)}"
proof -
  let ?f = "\<lambda>k. the (index_table 0 ks Map.empty k)"
  have f: "?f (ks ! n) = int n" if "n < length ks" for n
    using index_table_nth [OF assms that, of 0 Map.empty] by simp
  have "inj_on ?f (set ks)"
  proof (rule inj_onI)
    fix a b assume "a \<in> set ks" "b \<in> set ks" and eq: "?f a = ?f b"
    then obtain n m where n: "n < length ks" "a = ks ! n" and m: "m < length ks" "b = ks ! m"
      by (metis in_set_conv_nth)
    with eq f [of n] f [of m] show "a = b" by simp
  qed
  moreover have "?f ` set ks = {0..<int (length ks)}"
  proof (rule set_eqI)
    fix x
    show "x \<in> ?f ` set ks \<longleftrightarrow> x \<in> {0..<int (length ks)}"
    proof
      assume "x \<in> ?f ` set ks"
      then obtain n where "n < length ks" "x = ?f (ks ! n)"
        by (auto simp: in_set_conv_nth)
      with f [of n] show "x \<in> {0..<int (length ks)}" by simp
    next
      assume "x \<in> {0..<int (length ks)}"
      then have n: "nat x < length ks" "int (nat x) = x" by auto
      with f [of "nat x"] have "?f (ks ! nat x) = x" by simp
      with n show "x \<in> ?f ` set ks" by (metis imageI nth_mem)
    qed
  qed
  ultimately show ?thesis by (simp add: bij_betw_def)
qed

lemma camera_section_eq:
  "concat (map (\<lambda>k. camera_lines (Camera (the (View r k)))) (ViewIds r)) = camera_section r"
  unfolding camera_section_def
  by (rule arg_cong [where f = concat], rule map_cong) (auto dest: View_ViewIds)

lemma lists_lines_eq:
  "map (\<lambda>k. list_line (the (View r k))) (ViewIds r) = lists_lines r"
proof -
  have "lists_lines r = concat (map (\<lambda>k. [list_line (the (View r k))]) (ViewIds r))"
    unfolding lists_lines_def
    by (rule arg_cong [where f = concat], rule map_cong) (auto dest: View_ViewIds)
  then show ?thesis by (simp add: concat_map_singleton)
qed

lemma write_lists_ViewIds: "write_lists r (ViewIds r) [] = Inr (unlines (lists_lines r))"
proof -
  have "\<forall>k \<in> set (ViewIds r). View r k \<noteq> None" by (auto dest: View_ViewIds)
  from write_lists_eq [OF this] show ?thesis by (simp add: lists_lines_eq)
qed

lemma WriteListsFile_eq:
  "WriteListsFile r lists_file fs =
     (if writable fs lists_file
      then Inr (True, fs\<lparr>files := (files fs)(lists_file \<mapsto> unlines (lists_lines r))\<rparr>)
      else Inr (False, fs))"
  by (simp add: WriteListsFile_def write_lists_ViewIds)

lemma write_cameras_ViewIds:
  "write_cameras r 0 (ViewIds r) (ofs, Map.empty) =
     Inr (ofs @ unlines (camera_section r), view_id_to_index r)"
proof -
  have "\<forall>k \<in> set (ViewIds r). View r k \<noteq> None" by (auto dest: View_ViewIds)
  from write_cameras_eq [OF this] show ?thesis
    by (simp add: camera_section_eq view_id_to_index_def)
qed

lemma WriteBundleFile_closed:
  "\<not> writable fs bundle_file \<Longrightarrow> WriteBundleFile r bundle_file fs = Inr (False, fs)"
  by (simp add: WriteBundleFile_def)

lemma WriteBundleFile_ok:
  "writable fs bundle_file \<Longrightarrow> points_ok r \<Longrightarrow>
   WriteBundleFile r bundle_file fs =
     Inr (True, fs\<lparr>files := (files fs)(bundle_file \<mapsto> unlines (bundle_lines r))\<rparr>)"
  by (simp add: WriteBundleFile_def Let_def write_cameras_ViewIds points_ok_def
      write_points_Inr bundle_lines_def point_section_def header_lines_def unlines_append
      unlines_Cons unlines_Nil)

lemma WriteBundleFile_abort:
  assumes "writable fs bundle_file" "\<not> points_ok r"
  shows "\<exists>e. WriteBundleFile r bundle_file fs = Inl e"
proof -
  from assms(2) have "\<not> list_all (point_ok r (view_id_to_index r)) (TrackIds r)"
    by (simp add: points_ok_def)
  from write_points_Inl [OF this] obtain e where
    "write_points r (view_id_to_index r) (TrackIds r)
       ([TStr ''# Bundle file v0.3'', TEndl, TInt (int (NumViews r)), TStr '' '',
         TInt (int (NumTracks r)), TEndl] @ unlines (camera_section r)) = Inl e"
    by blast
  with assms(1) show ?thesis
    by (simp add: WriteBundleFile_def Let_def write_cameras_ViewIds)
qed

lemma WriteBundleFile_True:
  assumes "WriteBundleFile r bundle_file fs = Inr (True, fs')"
  shows "writable fs bundle_file \<and> points_ok r \<and>
         fs' = fs\<lparr>files := (files fs)(bundle_file \<mapsto> unlines (bundle_lines r))\<rparr>"
proof -
  from assms have w: "writable fs bundle_file"
    by (auto simp: WriteBundleFile_def split: if_splits)
  have p: "points_ok r"
  proof (rule ccontr)
    assume "\<not> points_ok r"
    from WriteBundleFile_abort [OF w this] assms show False by auto
  qed
  from WriteBundleFile_ok [OF w p] assms w p show ?thesis by simp
qed

section \<open>The claims\<close>

subsection \<open>Facts shared by the claims\<close>

lemma ex_input_filtered:
  "CreateEstimatedSubreconstruction ex_input =
     \<lparr>views = [(10, ex_view_a), (20, ex_view_b)], tracks = [(7, ex_track_7), (9, ex_track_9)]\<rparr>"
  by (simp add: CreateEstimatedSubreconstruction_def ex_input_def ViewIds_def TrackIds_def
      View_def Track_def RemoveView_def RemoveTrack_def Track_NumViews_def
      ex_view_a_def ex_view_b_def ex_view_c_def
      ex_track_6_def ex_track_7_def ex_track_8_def ex_track_9_def)

lemma length_lists_lines: "length (lists_lines r) = NumViews r"
  by (simp add: lists_lines_eq [symmetric] ViewIds_def NumViews_def)

lemma nth_lists_lines:
  assumes "i < NumViews r"
  shows "\<exists>v. View r (ViewIds r ! i) = Some v \<and> lists_lines r ! i = list_line v"
proof -
  from assms have i: "i < length (ViewIds r)" by (simp add: ViewIds_def NumViews_def)
  then have "ViewIds r ! i \<in> set (ViewIds r)" by simp
  from View_ViewIds [OF this] obtain v where v: "View r (ViewIds r ! i) = Some v" by blast
  with i show ?thesis by (simp add: lists_lines_eq [symmetric])
qed

lemma ex_fs_writable: "writable ex_fs ''list.txt''" "writable ex_fs ''bundle.out''"
  "\<not> writable ex_fs ''/nodir/list.txt''"
  by (simp_all add: ex_fs_def)

lemma ex_scene_lists:
  "WriteListsFile ex_scene ''list.txt'' ex_fs =
     Inr (True, ex_fs\<lparr>files := (files ex_fs)(''list.txt'' \<mapsto>
       [TStr ''a.jpg'', TStr '' 0 '', TDouble 1500, TEndl, TStr ''b.jpg'', TEndl])\<rparr>)"
  by (simp add: WriteListsFile_def ex_fs_writable ex_scene_def ViewIds_def View_def
      ex_view_a_def ex_view_b_def)

lemma view_id_to_index_None: "view_id_to_index r k = None \<longleftrightarrow> k \<notin> set (ViewIds r)"
proof -
  have "dom (view_id_to_index r) = set (ViewIds r)"
    by (simp add: view_id_to_index_def dom_index_table)
  then show ?thesis by (metis domIff)
qed

lemma observation_ok_iff:
  "observation_ok r (view_id_to_index r) track_id view_id \<longleftrightarrow>
     view_id \<in> set (ViewIds r) \<and>
     (\<exists>v feature. View r view_id = Some v \<and> GetFeature v track_id = Some feature)"
proof (cases "view_id_to_index r view_id")
  case None
  then have "view_id \<notin> set (ViewIds r)" by (simp add: view_id_to_index_None)
  with None show ?thesis by (simp add: observation_ok_def)
next
  case (Some i)
  then have "view_id \<in> set (ViewIds r)"
    using view_id_to_index_None [of r view_id] by auto
  with Some show ?thesis
    by (auto simp: observation_ok_def split: option.splits)
qed

lemma points_ok_iff:
  "points_ok r \<longleftrightarrow>
     (\<forall>track_id \<in> set (TrackIds r). \<forall>t. Track r track_id = Some t \<longrightarrow>
        (\<forall>view_id \<in> set (Track_ViewIds t).
           view_id \<in> set (ViewIds r) \<and>
           (\<exists>v feature. View r view_id = Some v \<and> GetFeature v track_id = Some feature)))"
  unfolding points_ok_def list_all_iff
proof (rule ball_cong [OF refl])
  fix track_id assume "track_id \<in> set (TrackIds r)"
  from Track_TrackIds [OF this] obtain t where "Track r track_id = Some t" by blast
  then show "point_ok r (view_id_to_index r) track_id \<longleftrightarrow>
     (\<forall>t. Track r track_id = Some t \<longrightarrow>
        (\<forall>view_id \<in> set (Track_ViewIds t).
           view_id \<in> set (ViewIds r) \<and>
           (\<exists>v feature. View r view_id = Some v \<and> GetFeature v track_id = Some feature)))"
    by (simp add: point_ok_def list_all_iff observation_ok_iff)
qed

lemma observation_tuple_shape:
  assumes "observation_ok r tbl track_id view_id"
  shows "\<exists>i a b. tbl view_id = Some i \<and>
     observation_tuple r tbl track_id view_id =
       [TStr '' '', TInt i, TStr '' 0 '', TFull a, TStr '' '', TFull b]"
  using assms
  by (auto simp: observation_ok_def observation_tuple_def adjusted_feature_def
      split: option.splits)

lemma points_ok_observer:
  assumes "points_ok r" "track_id \<in> set (TrackIds r)"
  shows "\<exists>t. Track r track_id = Some t \<and>
     (\<forall>view_id \<in> set (Track_ViewIds t). observation_ok r (view_id_to_index r) track_id view_id)"
  using assms
  by (auto simp: points_ok_def point_ok_def list_all_iff split: option.splits)

lemma flip_rotation:
  "mat_mul (asDiagonal (1, - 1, - 1)) (r0, r1, r2) = (r0, vec_uminus r1, vec_uminus r2)"
  by (cases r0; cases r1; cases r2) simp

lemma flip_translation:
  "mat_vec (asDiagonal (1, - 1, - 1)) (mat_vec (mat_uminus (r0, r1, r2)) C) =
     mat_vec (asDiagonal (1, - 1, - 1)) (vec_uminus (mat_vec (r0, r1, r2) C))"
  by (cases r0; cases r1; cases r2; cases C) simp

lemma flip_translation_explicit:
  "mat_vec (asDiagonal (1, - 1, - 1)) (vec_uminus (mat_vec (r0, r1, r2) C)) =
     (- dot3 r0 C, dot3 r1 C, dot3 r2 C)"
  by (cases r0; cases r1; cases r2; cases C) simp

lemma camera_section_concat:
  "camera_section r = concat (map (\<lambda>k. camera_lines (Camera (the (View r k)))) (ViewIds r))"
  by (rule camera_section_eq [symmetric])

lemma ex_scene_points_ok: "points_ok ex_scene"
  unfolding points_ok_iff
  by (simp add: ex_scene_def TrackIds_def ViewIds_def Track_def View_def GetFeature_def
        ex_track_7_def ex_view_a_def ex_view_b_def)

lemma ex_scene_bundle:
  "WriteBundleFile ex_scene ''bundle.out'' ex_fs =
     Inr (True, ex_fs\<lparr>files := (files ex_fs)(''bundle.out'' \<mapsto> unlines (bundle_lines ex_scene))\<rparr>)"
  by (rule WriteBundleFile_ok [OF ex_fs_writable(2) ex_scene_points_ok])

lemma ex_scene_bundle_content:
  "unlines (bundle_lines ex_scene) =
     [TStr ''# Bundle file v0.3'', TEndl,
      TInt 2, TStr '' '', TInt 1, TEndl,
      TDouble 1200, TStr '' '', TDouble 0, TStr '' '', TDouble 0, TEndl,
      TFull 0, TStr '' '', TFull (- 1), TStr '' '', TFull 0, TStr ''\<newline>'',
      TFull (- 1), TStr '' '', TFull 0, TStr '' '', TFull 0, TStr ''\<newline>'',
      TFull 0, TStr '' '', TFull 0, TStr '' '', TFull (- 1), TEndl,
      TFull 2, TStr '' '', TFull 1, TStr '' '', TFull 3, TEndl,
      TDouble 1000, TStr '' '', TDouble 0, TStr '' '', TDouble 0, TEndl,
      TFull 1, TStr '' '', TFull 0, TStr '' '', TFull 0, TStr ''\<newline>'',
      TFull 0, TStr '' '', TFull (- 1), TStr '' '', TFull 0, TStr ''\<newline>'',
      TFull 0, TStr '' '', TFull 0, TStr '' '', TFull (- 1), TEndl,
      TFull 0, TStr '' '', TFull 0, TStr '' '', TFull 0, TEndl,
      TFull 1, TStr '' '', TFull 2, TStr '' '', TFull 3, TEndl,
      TStr ''255 255 255'', TEndl,
      TSize 2, TStr '' '', TInt 0, TStr '' 0 '', TFull 80, TStr '' '', TFull (- 60),
        TStr '' '', TInt 1, TStr '' 0 '', TFull (- 200), TStr '' '', TFull 150, TEndl]"
  by (simp add: bundle_lines_def header_lines_def camera_section_def point_section_def
      point_lines_def observation_tuple_def view_id_to_index_def camera_lines_def
      theia_to_bundler_def adjusted_feature_def unlines_def
      ex_scene_def ViewIds_def TrackIds_def NumViews_def NumTracks_def
      Track_def View_def GetFeature_def ex_track_7_def ex_view_a_def ex_view_b_def
      ex_camera_a_def ex_camera_b_def)

subsection \<open>Observers that the index table does not hold\<close>

text \<open>
  Claim C1, as the spec states it, fails: the loop of lines 155 to 169 has no branch
  that skips an observer. On the reconstruction \<open>ex_dangling\<close>, whose track 9 is
  observed by the views 20 and 30 while only the views 10 and 20 are in the table,
  the writer reaches \<open>FindOrDie\<close> with the key 30 and stops there. (Line 157 would
  get a null pointer for the view 30, and line 158 dereferences it.)
\<close>

theorem absent_observer_counterexample:
  "writable ex_fs ''bundle.out'' \<and>
   Track ex_dangling 9 = Some ex_track_9 \<and>
   Track_ViewIds ex_track_9 = [20, 30] \<and>
   ViewIds ex_dangling = [10, 20] \<and>
   View ex_dangling 30 = None \<and>
   WriteBundleFile ex_dangling ''bundle.out'' ex_fs = Inl KeyNotFound"
  by (simp add: WriteBundleFile_def ex_fs_def ex_dangling_def ViewIds_def TrackIds_def
      Track_def View_def GetFeature_def FindOrDie_def ex_track_9_def ex_view_a_def
      ex_view_b_def)

text \<open>
  The same happens on the whole export of \<open>ex_input\<close>, where the filter (with the
  removal of a view as the spec describes it) keeps track 9 and drops view 30.
\<close>

lemma ex_input_export_aborts:
  "WriteBundlerFiles ex_input ''list.txt'' ''bundle.out'' ex_fs = Inl KeyNotFound"
  by (simp add: WriteBundlerFiles_def ex_input_filtered WriteListsFile_eq
      WriteBundleFile_def ex_fs_def ViewIds_def TrackIds_def
      Track_def View_def GetFeature_def FindOrDie_def ex_track_7_def ex_track_9_def
      ex_view_a_def ex_view_b_def)

text \<open>
  Claim C1, amended: on a path that can be opened the bundle writer completes
  normally exactly when every observer of every track is in the index table (it is
  a view of the reconstruction) and its view holds a feature for the track; in every
  other case, so whenever some observer is absent from the table, the writer does
  not skip the observation and does not return: it stops with an error.
\<close>

theorem bundle_writer_completes_iff:
  assumes "writable fs bundle_file"
  shows
   "((\<exists>fs'. WriteBundleFile r bundle_file fs = Inr (True, fs')) \<longleftrightarrow>
     (\<forall>track_id \<in> set (TrackIds r). \<forall>t. Track r track_id = Some t \<longrightarrow>
        (\<forall>view_id \<in> set (Track_ViewIds t).
           view_id \<in> set (ViewIds r) \<and>
           (\<exists>v feature. View r view_id = Some v \<and> GetFeature v track_id = Some feature)))) \<and>
    ((\<exists>e. WriteBundleFile r bundle_file fs = Inl e) \<longleftrightarrow>
     (\<exists>track_id \<in> set (TrackIds r). \<exists>t. Track r track_id = Some t \<and>
        (\<exists>view_id \<in> set (Track_ViewIds t).
           view_id \<notin> set (ViewIds r) \<or>
           (\<forall>v. View r view_id = Some v \<longrightarrow> GetFeature v track_id = None))))"
proof -
  have a: "(\<exists>fs'. WriteBundleFile r bundle_file fs = Inr (True, fs')) \<longleftrightarrow> points_ok r"
    using WriteBundleFile_ok [OF assms, of r] WriteBundleFile_True [of r bundle_file fs]
    by blast
  have b: "(\<exists>e. WriteBundleFile r bundle_file fs = Inl e) \<longleftrightarrow> \<not> points_ok r"
    using WriteBundleFile_ok [OF assms, of r] WriteBundleFile_abort [OF assms, of r]
    by auto
  have d: "(\<exists>v feature. View r view_id = Some v \<and> GetFeature v track_id = Some feature) \<longleftrightarrow>
      \<not> (\<forall>v. View r view_id = Some v \<longrightarrow> GetFeature v track_id = None)" for view_id track_id
    by auto
  have c: "(\<not> points_ok r) \<longleftrightarrow>
     (\<exists>track_id \<in> set (TrackIds r). \<exists>t. Track r track_id = Some t \<and>
        (\<exists>view_id \<in> set (Track_ViewIds t).
           view_id \<notin> set (ViewIds r) \<or>
           (\<forall>v. View r view_id = Some v \<longrightarrow> GetFeature v track_id = None)))"
    unfolding points_ok_iff d by blast
  show ?thesis
    unfolding a b c [symmetric] by (simp add: points_ok_iff)
qed

theorem bundle_writer_completes_iff_witness:
  "writable ex_fs ''bundle.out'' \<and>
   (\<exists>fs'. WriteBundleFile ex_scene ''bundle.out'' ex_fs = Inr (True, fs')) \<and>
   (\<exists>e. WriteBundleFile ex_dangling ''bundle.out'' ex_fs = Inl e)"
proof -
  have w: "writable ex_fs ''bundle.out''" by (rule ex_fs_writable)
  have a: "\<exists>fs'. WriteBundleFile ex_scene ''bundle.out'' ex_fs = Inr (True, fs')"
    by (rule iffD2 [OF conjunct1 [OF bundle_writer_completes_iff [OF w]]])
      (simp add: ex_scene_def TrackIds_def ViewIds_def Track_def View_def GetFeature_def
        ex_track_7_def ex_view_a_def ex_view_b_def)
  have b: "\<exists>e. WriteBundleFile ex_dangling ''bundle.out'' ex_fs = Inl e"
    by (rule iffD2 [OF conjunct2 [OF bundle_writer_completes_iff [OF w]]])
      (simp add: ex_dangling_def TrackIds_def ViewIds_def Track_def ex_track_9_def)
  from w a b show ?thesis by blast
qed

subsection \<open>The subreconstruction filter\<close>

text \<open>
  Claim C2: the filter keeps a track exactly when the track is estimated and has at
  least two observers, counted on the input: the track is kept as it is, observers
  included, and which tracks are kept does not depend on the views at all, so
  nothing is checked again after the views were removed.
\<close>

theorem track_retained_iff:
  "(Track (CreateEstimatedSubreconstruction r) track_id = Some t \<longleftrightarrow>
      Track r track_id = Some t \<and> Track_IsEstimated t \<and> 2 \<le> Track_NumViews t) \<and>
   tracks (CreateEstimatedSubreconstruction (r\<lparr>views := vs\<rparr>)) =
     tracks (CreateEstimatedSubreconstruction r)"
proof
  show "Track (CreateEstimatedSubreconstruction r) track_id = Some t \<longleftrightarrow>
      Track r track_id = Some t \<and> Track_IsEstimated t \<and> 2 \<le> Track_NumViews t"
    by (auto simp: Track_Create track_kept_def split: option.splits if_splits)
  show "tracks (CreateEstimatedSubreconstruction (r\<lparr>views := vs\<rparr>)) =
     tracks (CreateEstimatedSubreconstruction r)"
    by (simp add: tracks_Create track_kept_def Track_def)
qed

theorem track_retained_iff_witness:
  "Track (CreateEstimatedSubreconstruction ex_input) 9 = Some ex_track_9 \<and>
   View (CreateEstimatedSubreconstruction ex_input) 30 = None \<and>
   Track_ViewIds ex_track_9 = [20, 30] \<and>
   tracks (CreateEstimatedSubreconstruction (ex_input\<lparr>views := []\<rparr>)) =
     tracks (CreateEstimatedSubreconstruction ex_input)"
proof -
  have "Track ex_input 9 = Some ex_track_9 \<and> Track_IsEstimated ex_track_9
      \<and> 2 \<le> Track_NumViews ex_track_9"
    by (simp add: Track_def ex_input_def ex_track_9_def Track_NumViews_def)
  moreover have "View (CreateEstimatedSubreconstruction ex_input) 30 = None"
    unfolding View_Create
    by (simp add: view_kept_def View_def ex_input_def ex_view_c_def)
  moreover have "Track_ViewIds ex_track_9 = [20, 30]"
    by (simp add: ex_track_9_def)
  ultimately show ?thesis
    using track_retained_iff [of ex_input 9 ex_track_9 "[]"] by simp
qed

text \<open>
  Claim C3: the filtered copy has no more views and no more tracks than the input,
  every view it holds is estimated, and every track it holds is estimated and has
  at least two observers.
\<close>

theorem filter_shrinks_and_keeps_estimated:
  "NumViews (CreateEstimatedSubreconstruction r) \<le> NumViews r \<and>
   NumTracks (CreateEstimatedSubreconstruction r) \<le> NumTracks r \<and>
   (\<forall>view_id \<in> set (ViewIds (CreateEstimatedSubreconstruction r)).
      \<exists>v. View (CreateEstimatedSubreconstruction r) view_id = Some v \<and> IsEstimated v) \<and>
   (\<forall>track_id \<in> set (TrackIds (CreateEstimatedSubreconstruction r)).
      \<exists>t. Track (CreateEstimatedSubreconstruction r) track_id = Some t \<and>
          Track_IsEstimated t \<and> 2 \<le> Track_NumViews t)"
proof (intro conjI ballI)
  show "NumViews (CreateEstimatedSubreconstruction r) \<le> NumViews r"
    by (simp add: NumViews_def views_Create)
  show "NumTracks (CreateEstimatedSubreconstruction r) \<le> NumTracks r"
    by (simp add: NumTracks_def tracks_Create)
next
  fix view_id assume "view_id \<in> set (ViewIds (CreateEstimatedSubreconstruction r))"
  from View_ViewIds [OF this] obtain v where
    v: "View (CreateEstimatedSubreconstruction r) view_id = Some v" by blast
  then have "IsEstimated v"
    by (auto simp: View_Create view_kept_def split: if_splits option.splits)
  with v show "\<exists>v. View (CreateEstimatedSubreconstruction r) view_id = Some v \<and> IsEstimated v"
    by blast
next
  fix track_id assume "track_id \<in> set (TrackIds (CreateEstimatedSubreconstruction r))"
  from Track_TrackIds [OF this] obtain t where
    t: "Track (CreateEstimatedSubreconstruction r) track_id = Some t" by blast
  then have "Track_IsEstimated t \<and> 2 \<le> Track_NumViews t"
    by (auto simp: Track_Create track_kept_def split: if_splits option.splits)
  with t show "\<exists>t. Track (CreateEstimatedSubreconstruction r) track_id = Some t \<and>
          Track_IsEstimated t \<and> 2 \<le> Track_NumViews t"
    by blast
qed

theorem filter_shrinks_and_keeps_estimated_witness:
  "ViewIds (CreateEstimatedSubreconstruction ex_input) = [10, 20] \<and>
   TrackIds (CreateEstimatedSubreconstruction ex_input) = [7, 9] \<and>
   NumViews ex_input = 3 \<and> NumTracks ex_input = 4 \<and>
   NumViews (CreateEstimatedSubreconstruction ex_input) \<le> NumViews ex_input \<and>
   NumTracks (CreateEstimatedSubreconstruction ex_input) \<le> NumTracks ex_input \<and>
   (\<exists>v. View (CreateEstimatedSubreconstruction ex_input) 20 = Some v \<and> IsEstimated v) \<and>
   (\<exists>t. Track (CreateEstimatedSubreconstruction ex_input) 9 = Some t \<and>
       Track_IsEstimated t \<and> 2 \<le> Track_NumViews t)"
proof -
  have ids: "ViewIds (CreateEstimatedSubreconstruction ex_input) = [10, 20]"
    "TrackIds (CreateEstimatedSubreconstruction ex_input) = [7, 9]"
    by (simp_all add: ex_input_filtered ViewIds_def TrackIds_def)
  have n: "NumViews ex_input = 3" "NumTracks ex_input = 4"
    by (simp_all add: NumViews_def NumTracks_def ex_input_def)
  from ids have "20 \<in> set (ViewIds (CreateEstimatedSubreconstruction ex_input))"
    "9 \<in> set (TrackIds (CreateEstimatedSubreconstruction ex_input))" by simp_all
  with filter_shrinks_and_keeps_estimated [of ex_input] ids n show ?thesis by blast
qed

subsection \<open>The camera blocks\<close>

text \<open>
  Claim C4: when the bundle writer returns, the file holds, after the header, one
  block of three lines for each view in iteration order: the intrinsics, the
  rotation \<open>diag(1, -1, -1) * R\<close> and the translation \<open>diag(1, -1, -1) * (- (R * C))\<close>,
  where \<open>R\<close> is the camera's own rotation and \<open>C\<close> its position. The sign flip
  negates the second and the third row of \<open>R\<close>, and the second and third coefficient
  of \<open>- (R * C)\<close>.
\<close>

theorem camera_blocks_converted:
  assumes "WriteBundleFile r bundle_file fs = Inr (True, fs')"
  shows "\<exists>cameras.
     files fs' bundle_file = Some (unlines (header_lines r @ concat cameras @ point_section r)) \<and>
     length cameras = NumViews r \<and>
     (\<forall>i < NumViews r. \<exists>v r0 r1 r2 C.
        View r (ViewIds r ! i) = Some v \<and>
        GetOrientationAsRotationMatrix (Camera v) = (r0, r1, r2) \<and>
        GetPosition (Camera v) = C \<and>
        cameras ! i =
          [[TDouble (FocalLength (Camera v)), TStr '' '', TDouble (RadialDistortion1 (Camera v)),
            TStr '' '', TDouble (RadialDistortion2 (Camera v))],
           format_Matrix3d (mat_mul (asDiagonal (1, - 1, - 1)) (r0, r1, r2)),
           format_row3 (mat_vec (asDiagonal (1, - 1, - 1)) (vec_uminus (mat_vec (r0, r1, r2) C)))] \<and>
        mat_mul (asDiagonal (1, - 1, - 1)) (r0, r1, r2) = (r0, vec_uminus r1, vec_uminus r2) \<and>
        mat_vec (asDiagonal (1, - 1, - 1)) (vec_uminus (mat_vec (r0, r1, r2) C)) =
          (- dot3 r0 C, dot3 r1 C, dot3 r2 C))"
proof (intro exI [of _ "map (\<lambda>k. camera_lines (Camera (the (View r k)))) (ViewIds r)"]
    conjI allI impI)
  from WriteBundleFile_True [OF assms]
  show "files fs' bundle_file =
      Some (unlines (header_lines r @
        concat (map (\<lambda>k. camera_lines (Camera (the (View r k)))) (ViewIds r)) @ point_section r))"
    by (simp add: bundle_lines_def camera_section_concat)
  show "length (map (\<lambda>k. camera_lines (Camera (the (View r k)))) (ViewIds r)) = NumViews r"
    by (simp add: ViewIds_def NumViews_def)
next
  fix i assume "i < NumViews r"
  then have i: "i < length (ViewIds r)" by (simp add: ViewIds_def NumViews_def)
  then have "ViewIds r ! i \<in> set (ViewIds r)" by simp
  from View_ViewIds [OF this] obtain v where v: "View r (ViewIds r ! i) = Some v" by blast
  obtain r0 r1 r2 where R: "GetOrientationAsRotationMatrix (Camera v) = (r0, r1, r2)"
    by (cases "GetOrientationAsRotationMatrix (Camera v)") auto
  have "map (\<lambda>k. camera_lines (Camera (the (View r k)))) (ViewIds r) ! i =
      [[TDouble (FocalLength (Camera v)), TStr '' '', TDouble (RadialDistortion1 (Camera v)),
        TStr '' '', TDouble (RadialDistortion2 (Camera v))],
       format_Matrix3d (mat_mul (asDiagonal (1, - 1, - 1)) (r0, r1, r2)),
       format_row3 (mat_vec (asDiagonal (1, - 1, - 1))
         (vec_uminus (mat_vec (r0, r1, r2) (GetPosition (Camera v)))))]"
    using i v R
    by (simp add: camera_lines_def theia_to_bundler_def flip_translation
        del: mat_vec.simps mat_mul.simps mat_uminus.simps vec_uminus.simps asDiagonal.simps)
  with v R flip_rotation [of r0 r1 r2] flip_translation_explicit [of r0 r1 r2 "GetPosition (Camera v)"]
  show "\<exists>v r0 r1 r2 C.
        View r (ViewIds r ! i) = Some v \<and>
        GetOrientationAsRotationMatrix (Camera v) = (r0, r1, r2) \<and>
        GetPosition (Camera v) = C \<and>
        map (\<lambda>k. camera_lines (Camera (the (View r k)))) (ViewIds r) ! i =
          [[TDouble (FocalLength (Camera v)), TStr '' '', TDouble (RadialDistortion1 (Camera v)),
            TStr '' '', TDouble (RadialDistortion2 (Camera v))],
           format_Matrix3d (mat_mul (asDiagonal (1, - 1, - 1)) (r0, r1, r2)),
           format_row3 (mat_vec (asDiagonal (1, - 1, - 1)) (vec_uminus (mat_vec (r0, r1, r2) C)))] \<and>
        mat_mul (asDiagonal (1, - 1, - 1)) (r0, r1, r2) = (r0, vec_uminus r1, vec_uminus r2) \<and>
        mat_vec (asDiagonal (1, - 1, - 1)) (vec_uminus (mat_vec (r0, r1, r2) C)) =
          (- dot3 r0 C, dot3 r1 C, dot3 r2 C)"
    by blast
qed

theorem camera_blocks_converted_witness:
  "WriteBundleFile ex_scene ''bundle.out'' ex_fs =
     Inr (True, ex_fs\<lparr>files := (files ex_fs)(''bundle.out'' \<mapsto> unlines (bundle_lines ex_scene))\<rparr>) \<and>
   (\<exists>cameras.
      files (ex_fs\<lparr>files := (files ex_fs)(''bundle.out'' \<mapsto> unlines (bundle_lines ex_scene))\<rparr>)
        ''bundle.out'' =
        Some (unlines (header_lines ex_scene @ concat cameras @ point_section ex_scene)) \<and>
      length cameras = NumViews ex_scene) \<and>
   NumViews ex_scene = 2 \<and>
   camera_lines ex_camera_a =
     [[TDouble 1200, TStr '' '', TDouble 0, TStr '' '', TDouble 0],
      [TFull 0, TStr '' '', TFull (- 1), TStr '' '', TFull 0, TStr ''\<newline>'',
       TFull (- 1), TStr '' '', TFull 0, TStr '' '', TFull 0, TStr ''\<newline>'',
       TFull 0, TStr '' '', TFull 0, TStr '' '', TFull (- 1)],
      [TFull 2, TStr '' '', TFull 1, TStr '' '', TFull 3]]"
proof -
  note h = ex_scene_bundle
  from camera_blocks_converted [OF h] have
    "\<exists>cameras.
      files (ex_fs\<lparr>files := (files ex_fs)(''bundle.out'' \<mapsto> unlines (bundle_lines ex_scene))\<rparr>)
        ''bundle.out'' =
        Some (unlines (header_lines ex_scene @ concat cameras @ point_section ex_scene)) \<and>
      length cameras = NumViews ex_scene"
    by blast
  moreover have "NumViews ex_scene = 2" by (simp add: NumViews_def ex_scene_def)
  moreover have "camera_lines ex_camera_a =
     [[TDouble 1200, TStr '' '', TDouble 0, TStr '' '', TDouble 0],
      [TFull 0, TStr '' '', TFull (- 1), TStr '' '', TFull 0, TStr ''\<newline>'',
       TFull (- 1), TStr '' '', TFull 0, TStr '' '', TFull 0, TStr ''\<newline>'',
       TFull 0, TStr '' '', TFull 0, TStr '' '', TFull (- 1)],
      [TFull 2, TStr '' '', TFull 1, TStr '' '', TFull 3]]"
    by (simp add: camera_lines_def theia_to_bundler_def ex_camera_a_def)
  ultimately show ?thesis using h by blast
qed

subsection \<open>The adjusted feature\<close>

text \<open>
  Claim C5: for an observer the table holds, with the feature \<open>(x, y)\<close> and the
  principal point \<open>(cx, cy)\<close>, the loop appends the tuple whose two coordinates are
  \<open>x - cx\<close> and \<open>- (y - cy)\<close>; and \<open>(ax + cx, cy - ay)\<close> gives \<open>(x, y)\<close> back from
  the adjusted coordinates \<open>(ax, ay)\<close>.
\<close>

theorem adjusted_feature_written:
  assumes "table view_id = Some index" "View r view_id = Some v"
    and "GetFeature v track_id = Some (x, y)"
  shows "\<exists>ax ay.
     write_observations r table track_id [view_id] ofs =
       Inr (ofs @ [TStr '' '', TInt index, TStr '' 0 '', TFull ax, TStr '' '', TFull ay]) \<and>
     ax = x - PrincipalPointX (Camera v) \<and>
     ay = - (y - PrincipalPointY (Camera v)) \<and>
     (ax + PrincipalPointX (Camera v), PrincipalPointY (Camera v) - ay) = (x, y)"
  using assms by (simp add: FindOrDie_def adjusted_feature_def)

theorem adjusted_feature_written_witness:
  "[10 \<mapsto> 0::int] 10 = Some 0 \<and> View ex_scene 10 = Some ex_view_a \<and>
   GetFeature ex_view_a 7 = Some (400, 300) \<and>
   PrincipalPointX (Camera ex_view_a) = 320 \<and> PrincipalPointY (Camera ex_view_a) = 240 \<and>
   write_observations ex_scene [10 \<mapsto> 0] 7 [10] [TSize 1] =
     Inr [TSize 1, TStr '' '', TInt 0, TStr '' 0 '', TFull 80, TStr '' '', TFull (- 60)] \<and>
   (80 + 320, 240 - (- 60)) = (400 :: real, 300 :: real)"
proof -
  have a: "[10 \<mapsto> 0::int] (10::nat) = Some 0" by simp
  have b: "View ex_scene 10 = Some ex_view_a" by (simp add: View_def ex_scene_def)
  have c: "GetFeature ex_view_a 7 = Some (400, 300)"
    by (simp add: GetFeature_def ex_view_a_def)
  have p: "PrincipalPointX (Camera ex_view_a) = 320" "PrincipalPointY (Camera ex_view_a) = 240"
    by (simp_all add: ex_view_a_def ex_camera_a_def)
  from adjusted_feature_written [where table = "[10 \<mapsto> 0]" and view_id = 10 and index = 0
      and r = ex_scene and v = ex_view_a and track_id = 7 and x = 400 and y = 300
      and ofs = "[TSize 1]", OF a b c] a b c p
  show ?thesis by simp
qed

subsection \<open>The view index\<close>

text \<open>
  Claim C6: on a reconstruction whose view ids are pairwise different, the table the
  camera loop builds is a bijection between the view ids and the integers from 0 up
  to the number of views, it gives the index \<open>i\<close> to the \<open>i\<close>-th view in iteration
  order, which is the view of the \<open>i\<close>-th camera block, and every tuple written for
  an observer of a track starts with the index the table gives to that observer.
\<close>

theorem index_table_bijection:
  assumes "distinct (ViewIds r)" "WriteBundleFile r bundle_file fs = Inr (True, fs')"
  shows "\<exists>table.
     (\<forall>ofs. \<exists>ofs'. write_cameras r 0 (ViewIds r) (ofs, Map.empty) = Inr (ofs', table)) \<and>
     dom table = set (ViewIds r) \<and>
     bij_betw (\<lambda>view_id. the (table view_id)) (set (ViewIds r)) {0..<int (NumViews r)} \<and>
     (\<forall>i < NumViews r. table (ViewIds r ! i) = Some (int i)) \<and>
     files fs' bundle_file =
       Some (unlines (header_lines r @ camera_section r @
               concat (map (point_lines r table) (TrackIds r)))) \<and>
     (\<forall>track_id \<in> set (TrackIds r). \<exists>t. Track r track_id = Some t \<and>
        (\<forall>view_id \<in> set (Track_ViewIds t). \<exists>i < NumViews r.
            ViewIds r ! i = view_id \<and> table view_id = Some (int i) \<and>
            take 2 (observation_tuple r table track_id view_id) = [TStr '' '', TInt (int i)]))"
proof (intro exI [of _ "view_id_to_index r"] conjI allI impI ballI)
  from WriteBundleFile_True [OF assms(2)] have ok: "points_ok r"
    and fs': "fs' = fs\<lparr>files := (files fs)(bundle_file \<mapsto> unlines (bundle_lines r))\<rparr>"
    by simp_all
  have n: "NumViews r = length (ViewIds r)" by (simp add: NumViews_def ViewIds_def)
  show "\<exists>ofs'. write_cameras r 0 (ViewIds r) (ofs, Map.empty) = Inr (ofs', view_id_to_index r)" for ofs
    by (simp add: write_cameras_ViewIds)
  show "dom (view_id_to_index r) = set (ViewIds r)"
    by (simp add: view_id_to_index_def dom_index_table)
  show "bij_betw (\<lambda>view_id. the (view_id_to_index r view_id)) (set (ViewIds r)) {0..<int (NumViews r)}"
    unfolding n view_id_to_index_def by (rule index_table_bij [OF assms(1)])
  show "view_id_to_index r (ViewIds r ! i) = Some (int i)" if "i < NumViews r" for i
    using index_table_nth [OF assms(1), of i 0 Map.empty] that
    by (simp add: n view_id_to_index_def)
  show "files fs' bundle_file =
       Some (unlines (header_lines r @ camera_section r @
               concat (map (point_lines r (view_id_to_index r)) (TrackIds r))))"
    by (simp add: fs' bundle_lines_def point_section_def)
  show "\<exists>t. Track r track_id = Some t \<and>
        (\<forall>view_id \<in> set (Track_ViewIds t). \<exists>i < NumViews r.
            ViewIds r ! i = view_id \<and> view_id_to_index r view_id = Some (int i) \<and>
            take 2 (observation_tuple r (view_id_to_index r) track_id view_id) =
              [TStr '' '', TInt (int i)])"
    if "track_id \<in> set (TrackIds r)" for track_id
  proof -
    from points_ok_observer [OF ok that] obtain t where t: "Track r track_id = Some t"
      and obs: "\<forall>view_id \<in> set (Track_ViewIds t).
         observation_ok r (view_id_to_index r) track_id view_id" by blast
    have "\<exists>i < NumViews r.
            ViewIds r ! i = view_id \<and> view_id_to_index r view_id = Some (int i) \<and>
            take 2 (observation_tuple r (view_id_to_index r) track_id view_id) =
              [TStr '' '', TInt (int i)]"
      if v: "view_id \<in> set (Track_ViewIds t)" for view_id
    proof -
      from obs v have o: "observation_ok r (view_id_to_index r) track_id view_id" by blast
      then have "view_id \<in> set (ViewIds r)" by (simp add: observation_ok_iff)
      then obtain i where i: "i < length (ViewIds r)" "ViewIds r ! i = view_id"
        by (auto simp: in_set_conv_nth)
      with index_table_nth [OF assms(1), of i 0 Map.empty]
      have idx: "view_id_to_index r view_id = Some (int i)"
        by (simp add: view_id_to_index_def)
      from observation_tuple_shape [OF o] idx
      have "take 2 (observation_tuple r (view_id_to_index r) track_id view_id) =
              [TStr '' '', TInt (int i)]" by auto
      with i idx n show ?thesis by auto
    qed
    with t show ?thesis by blast
  qed
qed

theorem index_table_bijection_witness:
  "distinct (ViewIds ex_scene) \<and>
   ViewIds ex_scene = [10, 20] \<and>
   WriteBundleFile ex_scene ''bundle.out'' ex_fs =
     Inr (True, ex_fs\<lparr>files := (files ex_fs)(''bundle.out'' \<mapsto> unlines (bundle_lines ex_scene))\<rparr>) \<and>
   (\<exists>table.
      dom table = set (ViewIds ex_scene) \<and>
      bij_betw (\<lambda>view_id. the (table view_id)) (set (ViewIds ex_scene))
        {0..<int (NumViews ex_scene)} \<and>
      table 10 = Some 0 \<and> table 20 = Some 1)"
proof -
  have ids: "ViewIds ex_scene = [10, 20]" by (simp add: ViewIds_def ex_scene_def)
  then have d: "distinct (ViewIds ex_scene)" by simp
  have n: "NumViews ex_scene = 2" by (simp add: NumViews_def ex_scene_def)
  from index_table_bijection [OF d ex_scene_bundle] obtain table where
    t: "dom table = set (ViewIds ex_scene)"
      "bij_betw (\<lambda>view_id. the (table view_id)) (set (ViewIds ex_scene))
        {0..<int (NumViews ex_scene)}"
      "\<forall>i < NumViews ex_scene. table (ViewIds ex_scene ! i) = Some (int i)"
    by blast
  from t(3) n have "table (ViewIds ex_scene ! 0) = Some (int 0)"
    "table (ViewIds ex_scene ! 1) = Some (int 1)" by simp_all
  with ids have "table 10 = Some 0" "table 20 = Some 1" by simp_all
  with t(1,2) d ids ex_scene_bundle show ?thesis by blast
qed

subsection \<open>The lists file\<close>

text \<open>
  Claim C7: on a path that can be opened the list writer writes one line for each
  view, in iteration order, and nothing else: the name of the view, followed by
  \<open>'' 0 ''\<close> and the focal length of the prior exactly when the prior has it set;
  every line ends with \<open>std::endl\<close>.
\<close>

theorem lists_file_lines:
  assumes "writable fs lists_file"
  shows "\<exists>lines.
     WriteListsFile r lists_file fs =
       Inr (True, fs\<lparr>files := (files fs)(lists_file \<mapsto> unlines lines)\<rparr>) \<and>
     length lines = NumViews r \<and>
     (\<forall>i < NumViews r. \<exists>v. View r (ViewIds r ! i) = Some v \<and>
        lines ! i =
          (if focal_length_is_set (CameraIntrinsicsPrior v)
           then [TStr (Name v), TStr '' 0 '', TDouble (focal_length_value (CameraIntrinsicsPrior v))]
           else [TStr (Name v)]))"
proof (intro exI [of _ "lists_lines r"] conjI allI impI)
  show "WriteListsFile r lists_file fs =
       Inr (True, fs\<lparr>files := (files fs)(lists_file \<mapsto> unlines (lists_lines r))\<rparr>)"
    using assms by (simp add: WriteListsFile_eq)
  show "length (lists_lines r) = NumViews r" by (rule length_lists_lines)
next
  fix i assume "i < NumViews r"
  from nth_lists_lines [OF this] show "\<exists>v. View r (ViewIds r ! i) = Some v \<and>
        lists_lines r ! i =
          (if focal_length_is_set (CameraIntrinsicsPrior v)
           then [TStr (Name v), TStr '' 0 '', TDouble (focal_length_value (CameraIntrinsicsPrior v))]
           else [TStr (Name v)])"
    by (auto simp: list_line_def)
qed

theorem lists_file_lines_witness:
  "writable ex_fs ''list.txt'' \<and>
   WriteListsFile ex_scene ''list.txt'' ex_fs =
     Inr (True, ex_fs\<lparr>files := (files ex_fs)(''list.txt'' \<mapsto>
       [TStr ''a.jpg'', TStr '' 0 '', TDouble 1500, TEndl, TStr ''b.jpg'', TEndl])\<rparr>) \<and>
   (\<exists>lines.
     WriteListsFile ex_scene ''list.txt'' ex_fs =
       Inr (True, ex_fs\<lparr>files := (files ex_fs)(''list.txt'' \<mapsto> unlines lines)\<rparr>) \<and>
     length lines = NumViews ex_scene)"
proof -
  have w: "writable ex_fs ''list.txt''" by (rule ex_fs_writable)
  from lists_file_lines [OF w, of ex_scene] obtain lines where
    "WriteListsFile ex_scene ''list.txt'' ex_fs =
       Inr (True, ex_fs\<lparr>files := (files ex_fs)(''list.txt'' \<mapsto> unlines lines)\<rparr>)"
    "length lines = NumViews ex_scene" by blast
  with w ex_scene_lists show ?thesis by blast
qed

subsection \<open>The export as a whole\<close>

text \<open>
  Claim C8: the list writer always returns, and returns failure exactly when its
  path cannot be opened; the bundle writer returns failure exactly when its path
  cannot be opened; when the lists file cannot be opened the export returns failure
  and leaves the file system as it was, so the bundle file is not written; when it
  can be opened, the export is the bundle writer run on the filtered copy after the
  list writer has written the lists file of that same copy.
\<close>

theorem export_sequence:
  "(\<exists>ok fs'. WriteListsFile r path fs = Inr (ok, fs') \<and> (\<not> ok \<longleftrightarrow> \<not> writable fs path)) \<and>
   ((\<exists>fs'. WriteBundleFile r path fs = Inr (False, fs')) \<longleftrightarrow> \<not> writable fs path) \<and>
   (\<not> writable fs lists_file \<longrightarrow>
      WriteBundlerFiles r lists_file bundle_file fs = Inr (False, fs)) \<and>
   (writable fs lists_file \<longrightarrow>
      (\<exists>fs1. WriteListsFile (CreateEstimatedSubreconstruction r) lists_file fs = Inr (True, fs1) \<and>
         WriteBundlerFiles r lists_file bundle_file fs =
           WriteBundleFile (CreateEstimatedSubreconstruction r) bundle_file fs1))"
proof (intro conjI impI)
  show "\<exists>ok fs'. WriteListsFile r path fs = Inr (ok, fs') \<and> (\<not> ok \<longleftrightarrow> \<not> writable fs path)"
    by (simp add: WriteListsFile_eq)
  show "(\<exists>fs'. WriteBundleFile r path fs = Inr (False, fs')) \<longleftrightarrow> \<not> writable fs path"
  proof
    assume "\<exists>fs'. WriteBundleFile r path fs = Inr (False, fs')"
    then show "\<not> writable fs path"
      by (auto simp: WriteBundleFile_def Let_def split: if_splits sum.splits prod.splits)
  next
    assume "\<not> writable fs path"
    then show "\<exists>fs'. WriteBundleFile r path fs = Inr (False, fs')"
      by (simp add: WriteBundleFile_closed)
  qed
next
  assume "\<not> writable fs lists_file"
  then show "WriteBundlerFiles r lists_file bundle_file fs = Inr (False, fs)"
    by (simp add: WriteBundlerFiles_def WriteListsFile_eq)
next
  assume "writable fs lists_file"
  then show "\<exists>fs1. WriteListsFile (CreateEstimatedSubreconstruction r) lists_file fs = Inr (True, fs1) \<and>
         WriteBundlerFiles r lists_file bundle_file fs =
           WriteBundleFile (CreateEstimatedSubreconstruction r) bundle_file fs1"
    by (simp add: WriteBundlerFiles_def WriteListsFile_eq Let_def)
qed

theorem export_sequence_witness:
  "\<not> writable ex_fs ''/nodir/list.txt'' \<and> writable ex_fs ''bundle.out'' \<and>
   WriteBundlerFiles ex_input ''/nodir/list.txt'' ''bundle.out'' ex_fs = Inr (False, ex_fs) \<and>
   writable ex_fs ''list.txt'' \<and>
   (\<exists>fs1. WriteListsFile (CreateEstimatedSubreconstruction ex_scene) ''list.txt'' ex_fs = Inr (True, fs1) \<and>
      WriteBundlerFiles ex_scene ''list.txt'' ''bundle.out'' ex_fs =
        WriteBundleFile (CreateEstimatedSubreconstruction ex_scene) ''bundle.out'' fs1)"
  using export_sequence [of ex_input "''/nodir/list.txt''" ex_fs "''/nodir/list.txt''" "''bundle.out''"]
    export_sequence [of ex_scene "''list.txt''" ex_fs "''list.txt''" "''bundle.out''"]
    ex_fs_writable
  by blast

text \<open>
  Claim C9: on a reconstruction without views and without tracks, with two
  different paths that can be opened, the export succeeds, the lists file is empty
  and the bundle file holds the magic line and the line \<open>0 0\<close>, and nothing more.
\<close>

theorem export_empty:
  assumes "NumViews r = 0" "NumTracks r = 0"
    and "writable fs lists_file" "writable fs bundle_file" "lists_file \<noteq> bundle_file"
  shows "\<exists>fs'. WriteBundlerFiles r lists_file bundle_file fs = Inr (True, fs') \<and>
     files fs' lists_file = Some [] \<and>
     files fs' bundle_file =
       Some [TStr ''# Bundle file v0.3'', TEndl, TInt 0, TStr '' '', TInt 0, TEndl]"
proof -
  from assms(1,2) have e: "views r = []" "tracks r = []"
    by (simp_all add: NumViews_def NumTracks_def)
  then have c: "CreateEstimatedSubreconstruction r = r"
    by (simp add: CreateEstimatedSubreconstruction_def ViewIds_def TrackIds_def)
  from e assms(3,4,5) show ?thesis
    by (simp add: WriteBundlerFiles_def c WriteListsFile_def WriteBundleFile_def
        ViewIds_def TrackIds_def NumViews_def NumTracks_def)
qed

theorem export_empty_witness:
  "NumViews ex_empty = 0 \<and> NumTracks ex_empty = 0 \<and>
   writable ex_fs ''list.txt'' \<and> writable ex_fs ''bundle.out'' \<and> ''list.txt'' \<noteq> ''bundle.out'' \<and>
   (\<exists>fs'. WriteBundlerFiles ex_empty ''list.txt'' ''bundle.out'' ex_fs = Inr (True, fs') \<and>
     files fs' ''list.txt'' = Some [] \<and>
     files fs' ''bundle.out'' =
       Some [TStr ''# Bundle file v0.3'', TEndl, TInt 0, TStr '' '', TInt 0, TEndl])"
proof -
  have h: "NumViews ex_empty = 0" "NumTracks ex_empty = 0"
    by (simp_all add: NumViews_def NumTracks_def ex_empty_def)
  have d: "''list.txt'' \<noteq> ''bundle.out''" by simp
  from export_empty [OF h ex_fs_writable(1) ex_fs_writable(2) d] h ex_fs_writable d
  show ?thesis by blast
qed

subsection \<open>The observation count\<close>

text \<open>
  Claim C10: when the bundle writer returns, the file holds after the camera
  section one block of three lines for each track in iteration order; the third
  line starts with the count, which is the number of tuples that follow on the
  line, one for each observer of the track, each of the shape index, 0, x, y.
\<close>

theorem observation_count_matches:
  assumes "WriteBundleFile r bundle_file fs = Inr (True, fs')"
  shows "\<exists>points.
     files fs' bundle_file = Some (unlines (header_lines r @ camera_section r @ concat points)) \<and>
     length points = NumTracks r \<and>
     (\<forall>j < NumTracks r. \<exists>t tuples.
        Track r (TrackIds r ! j) = Some t \<and>
        points ! j =
          [format_row3 (hnormalized (Point t)), [TStr ''255 255 255''],
           TSize (length tuples) # concat tuples] \<and>
        length tuples = length (Track_ViewIds t) \<and>
        (\<forall>k < length tuples. \<exists>i a b.
           tuples ! k = [TStr '' '', TInt i, TStr '' 0 '', TFull a, TStr '' '', TFull b]))"
proof (intro exI [of _ "map (point_lines r (view_id_to_index r)) (TrackIds r)"] conjI allI impI)
  from WriteBundleFile_True [OF assms] have ok: "points_ok r"
    and fs': "fs' = fs\<lparr>files := (files fs)(bundle_file \<mapsto> unlines (bundle_lines r))\<rparr>"
    by simp_all
  have n: "NumTracks r = length (TrackIds r)" by (simp add: NumTracks_def TrackIds_def)
  show "files fs' bundle_file =
      Some (unlines (header_lines r @ camera_section r @
        concat (map (point_lines r (view_id_to_index r)) (TrackIds r))))"
    by (simp add: fs' bundle_lines_def point_section_def)
  show "length (map (point_lines r (view_id_to_index r)) (TrackIds r)) = NumTracks r"
    by (simp add: n)
  show "\<exists>t tuples.
        Track r (TrackIds r ! j) = Some t \<and>
        map (point_lines r (view_id_to_index r)) (TrackIds r) ! j =
          [format_row3 (hnormalized (Point t)), [TStr ''255 255 255''],
           TSize (length tuples) # concat tuples] \<and>
        length tuples = length (Track_ViewIds t) \<and>
        (\<forall>k < length tuples. \<exists>i a b.
           tuples ! k = [TStr '' '', TInt i, TStr '' 0 '', TFull a, TStr '' '', TFull b])"
    if "j < NumTracks r" for j
  proof -
    let ?tid = "TrackIds r ! j"
    let ?tbl = "view_id_to_index r"
    from that n have j: "j < length (TrackIds r)" by simp
    then have "?tid \<in> set (TrackIds r)" by simp
    from points_ok_observer [OF ok this] obtain t where t: "Track r ?tid = Some t"
      and obs: "\<forall>view_id \<in> set (Track_ViewIds t). observation_ok r ?tbl ?tid view_id"
      by blast
    let ?tuples = "map (observation_tuple r ?tbl ?tid) (Track_ViewIds t)"
    have "map (point_lines r ?tbl) (TrackIds r) ! j =
          [format_row3 (hnormalized (Point t)), [TStr ''255 255 255''],
           TSize (length ?tuples) # concat ?tuples]"
      using j t by (simp add: point_lines_def)
    moreover have "length ?tuples = length (Track_ViewIds t)" by simp
    moreover have "\<exists>i a b.
           ?tuples ! k = [TStr '' '', TInt i, TStr '' 0 '', TFull a, TStr '' '', TFull b]"
      if "k < length ?tuples" for k
    proof -
      from that have "Track_ViewIds t ! k \<in> set (Track_ViewIds t)" by simp
      with obs have "observation_ok r ?tbl ?tid (Track_ViewIds t ! k)" by blast
      from observation_tuple_shape [OF this] that show ?thesis by auto
    qed
    ultimately show ?thesis using t by blast
  qed
qed

theorem observation_count_matches_witness:
  "WriteBundleFile ex_scene ''bundle.out'' ex_fs =
     Inr (True, ex_fs\<lparr>files := (files ex_fs)(''bundle.out'' \<mapsto> unlines (bundle_lines ex_scene))\<rparr>) \<and>
   (\<exists>points.
      files (ex_fs\<lparr>files := (files ex_fs)(''bundle.out'' \<mapsto> unlines (bundle_lines ex_scene))\<rparr>)
        ''bundle.out'' =
        Some (unlines (header_lines ex_scene @ camera_section ex_scene @ concat points)) \<and>
      length points = NumTracks ex_scene) \<and>
   NumTracks ex_scene = 1 \<and>
   point_section ex_scene =
     [[TFull 1, TStr '' '', TFull 2, TStr '' '', TFull 3],
      [TStr ''255 255 255''],
      [TSize 2, TStr '' '', TInt 0, TStr '' 0 '', TFull 80, TStr '' '', TFull (- 60),
       TStr '' '', TInt 1, TStr '' 0 '', TFull (- 200), TStr '' '', TFull 150]]"
proof -
  from observation_count_matches [OF ex_scene_bundle] have
    "\<exists>points.
      files (ex_fs\<lparr>files := (files ex_fs)(''bundle.out'' \<mapsto> unlines (bundle_lines ex_scene))\<rparr>)
        ''bundle.out'' =
        Some (unlines (header_lines ex_scene @ camera_section ex_scene @ concat points)) \<and>
      length points = NumTracks ex_scene"
    by blast
  moreover have "NumTracks ex_scene = 1" by (simp add: NumTracks_def ex_scene_def)
  moreover have "point_section ex_scene =
     [[TFull 1, TStr '' '', TFull 2, TStr '' '', TFull 3],
      [TStr ''255 255 255''],
      [TSize 2, TStr '' '', TInt 0, TStr '' 0 '', TFull 80, TStr '' '', TFull (- 60),
       TStr '' '', TInt 1, TStr '' 0 '', TFull (- 200), TStr '' '', TFull 150]]"
    by (simp add: point_section_def point_lines_def observation_tuple_def
      view_id_to_index_def adjusted_feature_def
      ex_scene_def ViewIds_def TrackIds_def Track_def View_def GetFeature_def
      ex_track_7_def ex_view_a_def ex_view_b_def ex_camera_a_def ex_camera_b_def)
  ultimately show ?thesis using ex_scene_bundle by blast
qed

end
